theory Spec2Isabelle
  imports
    Main
    "HOL-Library.Char_ord"
    "HOL-Library.List_Lexorder"
    "HOL-Library.Multiset"
    "HOL-Library.Sublist"
begin

section \<open>Strings and the primitives of the language\<close>

text \<open>
  A JavaScript string is a sequence of code units and \<open>a <= b\<close> on two strings compares
  them code unit by code unit, a proper prefix being smaller. Strings are modelled as
  \<^typ>\<open>string\<close> (the code units 0 to 255) with the lexicographic order on lists over the
  order of the character codes, which is that comparison.

  \<open>toLowerCase\<close> on these code units maps A to Z and the capital letters of the Latin-1
  supplement (192 to 222 but for the multiplication sign 215) to the code unit 32 above, and
  leaves every other one alone.
\<close>

definition lowerChar :: "char \<Rightarrow> char" where
  "lowerChar c =
     (let n = (of_char c :: nat)
      in if (65 \<le> n \<and> n \<le> 90) \<or> (192 \<le> n \<and> n \<le> 222 \<and> n \<noteq> 215)
         then char_of (n + 32) else c)"

definition toLowerCase :: "string \<Rightarrow> string" where
  "toLowerCase s = map lowerChar s"

text \<open>
  The values a \<open>Literal\<close> key node can carry, and \<open>String(value)\<close> on them. A number is
  modelled where it is an integer below \<open>10^21\<close>, which \<open>String\<close> prints as its decimal
  numeral; a regular expression is carried as the text \<open>String\<close> prints for it.
\<close>

datatype jsvalue =
    JSString string
  | JSNumber nat
  | JSBoolean bool
  | JSNull
  | JSBigInt nat
  | JSRegExp string
  | JSSymbol string

fun decimal :: "nat \<Rightarrow> string" where
  "decimal n =
     (if n < 10 then [char_of (48 + n)]
      else decimal (n div 10) @ [char_of (48 + n mod 10)])"

fun typeof :: "jsvalue \<Rightarrow> string" where
  "typeof (JSString s) = ''string''"
| "typeof (JSNumber n) = ''number''"
| "typeof (JSBoolean b) = ''boolean''"
| "typeof JSNull = ''object''"
| "typeof (JSBigInt n) = ''bigint''"
| "typeof (JSRegExp r) = ''object''"
| "typeof (JSSymbol d) = ''symbol''"

fun String_js :: "jsvalue \<Rightarrow> string" where
  "String_js (JSString s) = s"
| "String_js (JSNumber n) = decimal n"
| "String_js (JSBoolean b) = (if b then ''true'' else ''false'')"
| "String_js JSNull = ''null''"
| "String_js (JSBigInt n) = decimal n"
| "String_js (JSRegExp r) = r"
| "String_js (JSSymbol d) = ''Symbol('' @ d @ '')''"

text \<open>
  \<open>a.localeCompare(b, undefined, {numeric: true, caseFirst: "upper"})\<close> is the collation of
  the host in its default locale; its result is defined by the implementation and the
  locale. It is a parameter of the model. The language requires of it that it is a
  consistent comparator, \<open>consistent\<close> below.
\<close>

type_synonym collator = "string \<Rightarrow> string \<Rightarrow> int"

definition antisymmetric :: "('a \<Rightarrow> 'a \<Rightarrow> int) \<Rightarrow> bool" where
  "antisymmetric cmp = (\<forall>a b. sgn (cmp b a) = - sgn (cmp a b))"

definition transitive :: "('a \<Rightarrow> 'a \<Rightarrow> int) \<Rightarrow> bool" where
  "transitive cmp = (\<forall>a b c. cmp a b \<le> 0 \<and> cmp b c \<le> 0 \<longrightarrow> cmp a c \<le> 0)"

definition consistent :: "('a \<Rightarrow> 'a \<Rightarrow> int) \<Rightarrow> bool" where
  "consistent cmp = (antisymmetric cmp \<and> transitive cmp)"

text \<open>A collator to evaluate the model with: the three-way comparison of the code units.\<close>

definition codeUnitCollator :: collator where
  "codeUnitCollator a b = (if a < b then - 1 else if b < a then 1 else 0)"

text \<open>
  \<open>Array.prototype.sort\<close> is stable; with a consistent comparator its result is the one
  stable arrangement, which insertion from the right computes: an element goes before the
  first element of the sorted rest that it does not compare greater than.
\<close>

fun insertBy :: "('a \<Rightarrow> 'a \<Rightarrow> int) \<Rightarrow> 'a \<Rightarrow> 'a list \<Rightarrow> 'a list" where
  "insertBy cmp x [] = [x]"
| "insertBy cmp x (y # ys) = (if cmp x y \<le> 0 then x # y # ys else y # insertBy cmp x ys)"

fun array_sort :: "('a \<Rightarrow> 'a \<Rightarrow> int) \<Rightarrow> 'a list \<Rightarrow> 'a list" where
  "array_sort cmp [] = []"
| "array_sort cmp (x # xs) = insertBy cmp x (array_sort cmp xs)"


section \<open>The syntax tree and the host\<close>

record loc =
  start_line :: nat
  end_line :: nat

datatype key =
    Identifier (name: string)
  | Literal (val: jsvalue)
  | Expression

record property =
  computed :: bool
  key :: key
  key_loc :: loc
  node_range :: "nat \<times> nat"
  node_loc :: loc

datatype node =
    Property property
  | SpreadElement
  | RestElement

text \<open>
  \<open>sourceCode\<close>: the tokens and comments between two nodes, each by its lines, and the
  source text of a node.
\<close>

record sourceCode =
  getTokensBetween :: "property \<Rightarrow> property \<Rightarrow> loc list"
  getText :: "property \<Rightarrow> string"

datatype sort_order = Asc | Desc

record options =
  allowLineSeparatedGroups :: bool
  caseSensitive :: bool
  ignoreComputedKeys :: bool
  minKeys :: nat
  natural :: bool

record fix_obj =
  fix_range :: "nat \<times> nat"
  fix_text :: string

record report =
  report_node :: property
  report_loc :: loc
  messageId :: string
  report_fix :: "fix_obj list"

datatype error = TypeError


section \<open>Natural comparison and the order predicates\<close>

definition naturalCompare :: "collator \<Rightarrow> string \<Rightarrow> string \<Rightarrow> int" where
  "naturalCompare lc a b = lc a b"

datatype order_key = asc | ascI | ascN | ascIN | desc | descI | descN | descIN

function isValidOrders :: "collator \<Rightarrow> order_key \<Rightarrow> string \<Rightarrow> string \<Rightarrow> bool" where
  "isValidOrders lc asc a b = (a \<le> b)"
| "isValidOrders lc ascI a b = (toLowerCase a \<le> toLowerCase b)"
| "isValidOrders lc ascN a b = (naturalCompare lc a b \<le> 0)"
| "isValidOrders lc ascIN a b = (naturalCompare lc (toLowerCase a) (toLowerCase b) \<le> 0)"
| "isValidOrders lc desc a b = isValidOrders lc asc b a"
| "isValidOrders lc descI a b = isValidOrders lc ascI b a"
| "isValidOrders lc descN a b = isValidOrders lc ascN b a"
| "isValidOrders lc descIN a b = isValidOrders lc ascIN b a"
  by pat_completeness auto
termination
  by (relation "measure (\<lambda>(lc, k, a, b). if k \<in> {desc, descI, descN, descIN} then 1 else 0)")
    auto

text \<open>\<open>order + (insensitive ? "I" : "") + (natural ? "N" : "")\<close>, the key of the table.\<close>

fun orderKey :: "sort_order \<Rightarrow> bool \<Rightarrow> bool \<Rightarrow> order_key" where
  "orderKey Asc False False = asc"
| "orderKey Asc True False = ascI"
| "orderKey Asc False True = ascN"
| "orderKey Asc True True = ascIN"
| "orderKey Desc False False = desc"
| "orderKey Desc True False = descI"
| "orderKey Desc False True = descN"
| "orderKey Desc True True = descIN"


section \<open>Helpers\<close>

fun getPropertyName :: "property \<Rightarrow> string option" where
  "getPropertyName node =
     (if computed node then
        (case key node of
           Literal v \<Rightarrow> if typeof v \<noteq> ''symbol'' then Some (String_js v) else None
         | _ \<Rightarrow> None)
      else
        (case key node of
           Identifier n \<Rightarrow> Some n
         | Literal v \<Rightarrow> Some (String_js v)
         | Expression \<Rightarrow> None))"

definition makeComparator :: "collator \<Rightarrow> sort_order \<Rightarrow> bool \<Rightarrow> bool \<Rightarrow> string \<Rightarrow> string \<Rightarrow> int" where
  "makeComparator lc ord caseSens natur =
     (let normalize = (if caseSens then (\<lambda>s. s) else toLowerCase);
          direction = (if ord = Desc then - 1 else 1)
      in (\<lambda>a b.
            let na = normalize a; nb = normalize b
            in if natur then direction * naturalCompare lc na nb
               else direction * (if na < nb then - 1 else if nb < na then 1 else 0)))"

text \<open>The body of both loops over the names: the pair at \<open>i - 1\<close> and \<open>i\<close> is out of order.\<close>

definition outOfOrder :: "string option list \<Rightarrow> (string \<Rightarrow> string \<Rightarrow> bool) \<Rightarrow> nat \<Rightarrow> bool" where
  "outOfOrder names isValidOrder i =
     (case (names ! (i - 1), names ! i) of
        (Some a, Some b) \<Rightarrow> \<not> isValidOrder a b
      | _ \<Rightarrow> False)"

function areSorted_loop :: "string option list \<Rightarrow> (string \<Rightarrow> string \<Rightarrow> bool) \<Rightarrow> nat \<Rightarrow> bool" where
  "areSorted_loop names isValidOrder i =
     (if i < length names then
        (if outOfOrder names isValidOrder i then False
         else areSorted_loop names isValidOrder (i + 1))
      else True)"
  by pat_completeness auto
termination
  by (relation "measure (\<lambda>(names, isValidOrder, i). length names - i)") auto

definition areSorted :: "string option list \<Rightarrow> (string \<Rightarrow> string \<Rightarrow> bool) \<Rightarrow> bool" where
  "areSorted names isValidOrder = areSorted_loop names isValidOrder 1"

text \<open>
  The search for the anchor of the report: \<open>firstViolationIdx\<close> starts as 1 and becomes
  the first index whose pair is out of order.
\<close>

function firstViolationIdx_loop :: "string option list \<Rightarrow> (string \<Rightarrow> string \<Rightarrow> bool) \<Rightarrow> nat \<Rightarrow> nat" where
  "firstViolationIdx_loop names isValidOrder i =
     (if i < length names then
        (if outOfOrder names isValidOrder i then i
         else firstViolationIdx_loop names isValidOrder (i + 1))
      else 1)"
  by pat_completeness auto
termination
  by (relation "measure (\<lambda>(names, isValidOrder, i). length names - i)") auto

definition firstViolationIdx :: "string option list \<Rightarrow> (string \<Rightarrow> string \<Rightarrow> bool) \<Rightarrow> nat" where
  "firstViolationIdx names isValidOrder = firstViolationIdx_loop names isValidOrder 1"


section \<open>The rule\<close>

definition hasBlankLineBetween :: "sourceCode \<Rightarrow> property \<Rightarrow> property \<Rightarrow> bool" where
  "hasBlankLineBetween sc nodeA nodeB =
     (let tokens = getTokensBetween sc nodeA nodeB;
          pairs =
            [(end_line (node_loc nodeA),
              if tokens \<noteq> [] then start_line (tokens ! 0) else start_line (node_loc nodeB))]
            @ map (\<lambda>i. (end_line (tokens ! i), start_line (tokens ! (i + 1))))
                [0 ..< length tokens - 1]
            @ (if tokens \<noteq> []
               then [(end_line (tokens ! (length tokens - 1)), start_line (node_loc nodeB))]
               else [])
      in list_ex (\<lambda>(e, s). int s - int e > 1) pairs)"

text \<open>
  \<open>splitIntoGroups\<close> keeps the closed groups and the current one; \<open>closeCurrent\<close> is
  \<open>if (current.length) { groups.push(current); current = []; }\<close>.
\<close>

type_synonym split_state = "property list list \<times> property list"

definition closeCurrent :: "split_state \<Rightarrow> split_state" where
  "closeCurrent st = (case st of (groups, current) \<Rightarrow>
     if current \<noteq> [] then (groups @ [current], []) else (groups, current))"

fun splitStep :: "options \<Rightarrow> sourceCode \<Rightarrow> split_state \<Rightarrow> node \<Rightarrow> split_state" where
  "splitStep opts sc st SpreadElement = closeCurrent st"
| "splitStep opts sc st RestElement = closeCurrent st"
| "splitStep opts sc (groups, current) (Property prop) =
     (if ignoreComputedKeys opts \<and> computed prop then closeCurrent (groups, current)
      else
        (case (if allowLineSeparatedGroups opts \<and> length current > 0
                  \<and> hasBlankLineBetween sc (current ! (length current - 1)) prop
               then (groups @ [current], [])
               else (groups, current)) of
           (groups', current') \<Rightarrow> (groups', current' @ [prop])))"

definition splitIntoGroups :: "options \<Rightarrow> sourceCode \<Rightarrow> node list \<Rightarrow> property list list" where
  "splitIntoGroups opts sc properties =
     (case foldl (splitStep opts sc) ([], []) properties of
        (groups, current) \<Rightarrow> if current \<noteq> [] then groups @ [current] else groups)"

text \<open>The comparator of the sort: a property without a name sinks to the end.\<close>

definition sortCompare :: "(string \<Rightarrow> string \<Rightarrow> int) \<Rightarrow> property \<Rightarrow> property \<Rightarrow> int" where
  "sortCompare comparator a b =
     (case (getPropertyName a, getPropertyName b) of
        (None, None) \<Rightarrow> 0
      | (None, Some nb) \<Rightarrow> 1
      | (Some na, None) \<Rightarrow> - 1
      | (Some na, Some nb) \<Rightarrow> comparator na nb)"

definition sortedGroup :: "(string \<Rightarrow> string \<Rightarrow> int) \<Rightarrow> property list \<Rightarrow> property list" where
  "sortedGroup comparator grp = array_sort (sortCompare comparator) grp"

text \<open>
  The fix: \<open>group.map((original, i) => ...).filter(Boolean)\<close>. \<open>original === target\<close> is
  the identity of two nodes of one object literal, which is their equality here, since
  two of them never have the same range.
\<close>

definition fixPlan :: "sourceCode \<Rightarrow> property list \<Rightarrow> property list \<Rightarrow> fix_obj list" where
  "fixPlan sc grp sorted' =
     List.map_filter
       (\<lambda>i. let original = grp ! i; target = sorted' ! i
            in if original = target then None
               else Some \<lparr>fix_range = node_range original, fix_text = getText sc target\<rparr>)
       [0 ..< length grp]"

text \<open>
  The body of the loop over the groups. \<open>group[firstViolationIdx]\<close> out of range is
  \<open>undefined\<close>, whose \<open>key\<close> cannot be read.
\<close>

definition checkGroup ::
  "collator \<Rightarrow> sourceCode \<Rightarrow> sort_order \<Rightarrow> options \<Rightarrow> property list \<Rightarrow> error + report option" where
  "checkGroup lc sc ord opts grp =
     (let insensitive = \<not> caseSensitive opts;
          isValidOrder = isValidOrders lc (orderKey ord insensitive (natural opts));
          comparator = makeComparator lc ord (caseSensitive opts) (natural opts)
      in if length grp < minKeys opts then Inr None
         else
           let names = map getPropertyName grp
           in if areSorted names isValidOrder then Inr None
              else
                let firstViolationIdx' = firstViolationIdx names isValidOrder
                in if firstViolationIdx' < length grp then
                     let reportNode = grp ! firstViolationIdx';
                         sorted' = sortedGroup comparator grp
                     in Inr (Some \<lparr>report_node = reportNode,
                                   report_loc = key_loc reportNode,
                                   messageId = ''sort'',
                                   report_fix = fixPlan sc grp sorted'\<rparr>)
                   else Inl TypeError)"

fun collectReports :: "(error + report option) list \<Rightarrow> error + report list" where
  "collectReports [] = Inr []"
| "collectReports (Inl e # rs) = Inl e"
| "collectReports (Inr None # rs) = collectReports rs"
| "collectReports (Inr (Some r) # rs) =
     (case collectReports rs of Inl e \<Rightarrow> Inl e | Inr xs \<Rightarrow> Inr (r # xs))"

definition ObjectExpression_exit ::
  "collator \<Rightarrow> sourceCode \<Rightarrow> sort_order \<Rightarrow> options \<Rightarrow> node list \<Rightarrow> error + report list" where
  "ObjectExpression_exit lc sc ord opts properties =
     (if length properties < minKeys opts then Inr []
      else collectReports (map (checkGroup lc sc ord opts) (splitIntoGroups opts sc properties)))"


section \<open>Inputs to evaluate the rule on\<close>

text \<open>
  A property on line \<open>i\<close> of a source with one property to the line, with a plain or a
  computed key; a source with nothing between its properties; the default options.
\<close>

definition plainProp :: "string \<Rightarrow> nat \<Rightarrow> property" where
  "plainProp n i =
     \<lparr>computed = False, key = Identifier n, key_loc = \<lparr>start_line = i, end_line = i\<rparr>,
      node_range = (10 * i, 10 * i + 5), node_loc = \<lparr>start_line = i, end_line = i\<rparr>\<rparr>"

definition computedProp :: "key \<Rightarrow> nat \<Rightarrow> property" where
  "computedProp k i =
     \<lparr>computed = True, key = k, key_loc = \<lparr>start_line = i, end_line = i\<rparr>,
      node_range = (10 * i, 10 * i + 5), node_loc = \<lparr>start_line = i, end_line = i\<rparr>\<rparr>"

definition plainSource :: sourceCode where
  "plainSource =
     \<lparr>getTokensBetween = (\<lambda>a b. []),
      getText = (\<lambda>p. case getPropertyName p of Some n \<Rightarrow> n | None \<Rightarrow> ''[k]'')\<rparr>"

text \<open>A source with a comma after each property, on the line where the property ends.\<close>

definition commaSource :: sourceCode where
  "commaSource =
     \<lparr>getTokensBetween =
        (\<lambda>a b. [\<lparr>start_line = end_line (node_loc a), end_line = end_line (node_loc a)\<rparr>]),
      getText = (\<lambda>p. case getPropertyName p of Some n \<Rightarrow> n | None \<Rightarrow> ''[k]'')\<rparr>"

definition defaults :: options where
  "defaults =
     \<lparr>allowLineSeparatedGroups = False, caseSensitive = True, ignoreComputedKeys = False,
      minKeys = 2, natural = False\<rparr>"



section \<open>Reference definitions\<close>

text \<open>
  The blank line of the specification, on the lines of the previous entry, of the tokens
  and comments of the gap in their order, and of the candidate: somewhere the start of one
  lies more than one line after the end of the one before it.
\<close>

definition blankLineInGap :: "loc list \<Rightarrow> bool" where
  "blankLineInGap seq =
     list_ex (\<lambda>i. int (start_line (seq ! (i + 1))) - int (end_line (seq ! i)) > 1)
       [0 ..< length seq - 1]"

text \<open>
  A locale-aware ordering with uppercase precedence, on the strings of the model: the
  letters are compared without regard to case, and case decides, the capital first, only
  between two strings that are the same but for case.
\<close>

definition localeUpperFirst :: "string \<Rightarrow> string \<Rightarrow> bool" where
  "localeUpperFirst a b =
     (toLowerCase a < toLowerCase b \<or> (toLowerCase a = toLowerCase b \<and> a \<le> b))"

text \<open>
  The properties of a group as the parser gives them: each on a span of its own that is
  not empty, in the order of the source. Two spans intersect when they share a position.
\<close>

definition disjointSpans :: "property list \<Rightarrow> bool" where
  "disjointSpans grp =
     (sorted_wrt (\<lambda>a b. snd (node_range a) \<le> fst (node_range b)) grp
      \<and> list_all (\<lambda>a. fst (node_range a) < snd (node_range a)) grp)"

definition spansIntersect :: "nat \<times> nat \<Rightarrow> nat \<times> nat \<Rightarrow> bool" where
  "spansIntersect r s = (fst r < snd s \<and> fst s < snd r)"

text \<open>
  The host applies the replacements of a fix at once to the original text: the text in the
  place of each property of the group afterwards.
\<close>

definition textsAfterFix :: "sourceCode \<Rightarrow> property list \<Rightarrow> fix_obj list \<Rightarrow> string list" where
  "textsAfterFix sc grp plan =
     map (\<lambda>e. case find (\<lambda>f. fix_range f = node_range e) plan of
                 Some f \<Rightarrow> fix_text f
               | None \<Rightarrow> getText sc e) grp"


section \<open>The two loops over the names\<close>

declare getPropertyName.simps [simp del]
declare areSorted_loop.simps [simp del]
declare firstViolationIdx_loop.simps [simp del]

lemma outOfOrder_iff:
  "outOfOrder names iv i \<longleftrightarrow>
     (\<exists>a b. names ! (i - 1) = Some a \<and> names ! i = Some b \<and> \<not> iv a b)"
  by (auto simp: outOfOrder_def split: option.splits)

lemma areSorted_loop_iff:
  "areSorted_loop names iv i \<longleftrightarrow>
     (\<forall>j. i \<le> j \<and> j < length names \<longrightarrow> \<not> outOfOrder names iv j)"
proof (induction names iv i rule: areSorted_loop.induct)
  case (1 names iv i)
  show ?case
  proof (cases "i < length names")
    case False
    then show ?thesis by (auto simp: areSorted_loop.simps [of names iv i])
  next
    case True
    show ?thesis
    proof (cases "outOfOrder names iv i")
      case True
      with \<open>i < length names\<close> show ?thesis
        by (auto simp: areSorted_loop.simps [of names iv i])
    next
      case False
      have "areSorted_loop names iv i = areSorted_loop names iv (i + 1)"
        using False \<open>i < length names\<close> by (simp add: areSorted_loop.simps [of names iv i])
      also have "\<dots> \<longleftrightarrow> (\<forall>j. i + 1 \<le> j \<and> j < length names \<longrightarrow> \<not> outOfOrder names iv j)"
        using "1.IH" [OF \<open>i < length names\<close> False] .
      also have "\<dots> \<longleftrightarrow> (\<forall>j. i \<le> j \<and> j < length names \<longrightarrow> \<not> outOfOrder names iv j)"
        using False by (metis Suc_eq_plus1 Suc_leI le_neq_implies_less le_add1 le_trans)
      finally show ?thesis .
    qed
  qed
qed

lemma firstViolationIdx_loop_least:
  "\<not> areSorted_loop names iv i \<Longrightarrow>
     i \<le> firstViolationIdx_loop names iv i \<and>
     firstViolationIdx_loop names iv i < length names \<and>
     outOfOrder names iv (firstViolationIdx_loop names iv i) \<and>
     (\<forall>j. i \<le> j \<and> j < firstViolationIdx_loop names iv i \<longrightarrow> \<not> outOfOrder names iv j)"
proof (induction names iv i rule: firstViolationIdx_loop.induct)
  case (1 names iv i)
  from "1.prems" have lt: "i < length names"
    by (simp add: areSorted_loop.simps [of names iv i] split: if_splits)
  show ?case
  proof (cases "outOfOrder names iv i")
    case True
    then show ?thesis using lt
      by (auto simp: firstViolationIdx_loop.simps [of names iv i])
  next
    case False
    have eq: "firstViolationIdx_loop names iv i = firstViolationIdx_loop names iv (i + 1)"
      using False lt by (simp add: firstViolationIdx_loop.simps [of names iv i])
    have "\<not> areSorted_loop names iv (i + 1)"
      using "1.prems" False lt by (simp add: areSorted_loop.simps [of names iv i])
    from "1.IH" [OF lt False this] show ?thesis
      unfolding eq using False
      by (metis Suc_eq_plus1 Suc_leI le_neq_implies_less le_add1 le_trans)
  qed
qed

lemma areSorted_iff:
  "areSorted names iv \<longleftrightarrow>
     (\<forall>j. 1 \<le> j \<and> j < length names \<longrightarrow> \<not> outOfOrder names iv j)"
  by (simp add: areSorted_def areSorted_loop_iff)

lemma firstViolationIdx_least:
  assumes "\<not> areSorted names iv"
  shows "1 \<le> firstViolationIdx names iv"
    and "firstViolationIdx names iv < length names"
    and "outOfOrder names iv (firstViolationIdx names iv)"
    and "\<And>j. 1 \<le> j \<Longrightarrow> j < firstViolationIdx names iv \<Longrightarrow> \<not> outOfOrder names iv j"
  using firstViolationIdx_loop_least [of names iv 1] assms
  by (simp_all add: areSorted_def firstViolationIdx_def)


section \<open>Claims\<close>

text \<open>
  C5. The detector finds a group unsorted exactly when some adjacent pair whose two names
  are both defined is rejected by the order predicate, and then the anchor index is the
  first such pair from the left. A pair with an unnamed side is skipped: it never makes a
  group unsorted and never hides a rejected pair on either side of it.
\<close>

theorem detector_first_violation:
  "(areSorted (map getPropertyName grp) iv \<longleftrightarrow>
      \<not> (\<exists>i a b. 1 \<le> i \<and> i < length grp \<and> getPropertyName (grp ! (i - 1)) = Some a
            \<and> getPropertyName (grp ! i) = Some b \<and> \<not> iv a b))
   \<and> (\<not> areSorted (map getPropertyName grp) iv \<longrightarrow>
        1 \<le> firstViolationIdx (map getPropertyName grp) iv
        \<and> firstViolationIdx (map getPropertyName grp) iv < length grp
        \<and> (\<exists>a b. getPropertyName (grp ! (firstViolationIdx (map getPropertyName grp) iv - 1)) = Some a
              \<and> getPropertyName (grp ! firstViolationIdx (map getPropertyName grp) iv) = Some b
              \<and> \<not> iv a b)
        \<and> (\<forall>j a b. 1 \<le> j \<and> j < firstViolationIdx (map getPropertyName grp) iv
              \<and> getPropertyName (grp ! (j - 1)) = Some a \<and> getPropertyName (grp ! j) = Some b
              \<longrightarrow> iv a b))"
proof -
  let ?names = "map getPropertyName grp"
  let ?k = "firstViolationIdx ?names iv"
  have ooo: "outOfOrder ?names iv j \<longleftrightarrow>
      (\<exists>a b. getPropertyName (grp ! (j - 1)) = Some a \<and> getPropertyName (grp ! j) = Some b \<and> \<not> iv a b)"
    if "1 \<le> j" "j < length grp" for j
    using that by (simp add: outOfOrder_iff)
  have first: "areSorted ?names iv \<longleftrightarrow>
      \<not> (\<exists>i a b. 1 \<le> i \<and> i < length grp \<and> getPropertyName (grp ! (i - 1)) = Some a
            \<and> getPropertyName (grp ! i) = Some b \<and> \<not> iv a b)"
    unfolding areSorted_iff using ooo by auto
  have second: "1 \<le> ?k \<and> ?k < length grp
        \<and> (\<exists>a b. getPropertyName (grp ! (?k - 1)) = Some a
              \<and> getPropertyName (grp ! ?k) = Some b \<and> \<not> iv a b)
        \<and> (\<forall>j a b. 1 \<le> j \<and> j < ?k
              \<and> getPropertyName (grp ! (j - 1)) = Some a \<and> getPropertyName (grp ! j) = Some b
              \<longrightarrow> iv a b)"
    if ns: "\<not> areSorted ?names iv"
  proof -
    note fv = firstViolationIdx_least [OF ns]
    from fv(2) have klt: "?k < length grp" by simp
    have "\<exists>a b. getPropertyName (grp ! (?k - 1)) = Some a
              \<and> getPropertyName (grp ! ?k) = Some b \<and> \<not> iv a b"
      using fv(3) ooo [OF fv(1) klt] by simp
    moreover have "iv a b"
      if "1 \<le> j" "j < ?k" "getPropertyName (grp ! (j - 1)) = Some a" "getPropertyName (grp ! j) = Some b"
      for j a b
    proof -
      have "j < length grp" using that(2) klt by simp
      from fv(4) [OF that(1,2)] ooo [OF that(1) this] that(3,4) show ?thesis by auto
    qed
    ultimately show ?thesis using fv(1) klt by blast
  qed
  from first second show ?thesis by blast
qed

theorem detector_first_violation_witness:
  "\<not> areSorted (map getPropertyName
        [plainProp ''foo'' 1, computedProp Expression 2, plainProp ''qux'' 3, plainProp ''bar'' 4])
        (isValidOrders codeUnitCollator asc)
   \<and> firstViolationIdx (map getPropertyName
        [plainProp ''foo'' 1, computedProp Expression 2, plainProp ''qux'' 3, plainProp ''bar'' 4])
        (isValidOrders codeUnitCollator asc) = 3
   \<and> (\<exists>i a b. 1 \<le> i \<and> i < length [plainProp ''foo'' 1, computedProp Expression 2, plainProp ''qux'' 3, plainProp ''bar'' 4]
         \<and> getPropertyName ([plainProp ''foo'' 1, computedProp Expression 2, plainProp ''qux'' 3, plainProp ''bar'' 4] ! (i - 1)) = Some a
         \<and> getPropertyName ([plainProp ''foo'' 1, computedProp Expression 2, plainProp ''qux'' 3, plainProp ''bar'' 4] ! i) = Some b
         \<and> \<not> isValidOrders codeUnitCollator asc a b)"
proof -
  let ?g = "[plainProp ''foo'' 1, computedProp Expression 2, plainProp ''qux'' 3, plainProp ''bar'' 4]"
  have ns: "\<not> areSorted (map getPropertyName ?g) (isValidOrders codeUnitCollator asc)"
    by code_simp
  have k: "firstViolationIdx (map getPropertyName ?g) (isValidOrders codeUnitCollator asc) = 3"
    by code_simp
  from detector_first_violation [of ?g "isValidOrders codeUnitCollator asc"] ns k
  show ?thesis by blast
qed


text \<open>The body of the loop over the groups, with the index of the anchor known to be in range.\<close>

lemma checkGroup_cases:
  "checkGroup lc sc ord opts grp =
     (if length grp < minKeys opts
         \<or> areSorted (map getPropertyName grp)
              (isValidOrders lc (orderKey ord (\<not> caseSensitive opts) (natural opts)))
      then Inr None
      else Inr (Some
        \<lparr>report_node = grp ! firstViolationIdx (map getPropertyName grp)
              (isValidOrders lc (orderKey ord (\<not> caseSensitive opts) (natural opts))),
         report_loc = key_loc (grp ! firstViolationIdx (map getPropertyName grp)
              (isValidOrders lc (orderKey ord (\<not> caseSensitive opts) (natural opts)))),
         messageId = ''sort'',
         report_fix = fixPlan sc grp
           (sortedGroup (makeComparator lc ord (caseSensitive opts) (natural opts)) grp)\<rparr>))"
proof -
  let ?iv = "isValidOrders lc (orderKey ord (\<not> caseSensitive opts) (natural opts))"
  have "firstViolationIdx (map getPropertyName grp) ?iv < length grp"
    if "\<not> areSorted (map getPropertyName grp) ?iv"
    using firstViolationIdx_least(2) [OF that] by simp
  then show ?thesis
    by (auto simp: checkGroup_def Let_def)
qed

text \<open>
  C10. Whenever a report is emitted for a group, some index \<open>i\<close> from 1 on has both names
  defined and its pair rejected by the order predicate, and the reported node is the entry
  at the least such index, which is what the anchor search returns. So the 1 that the
  search starts from is reported only when the pair at 1 is itself rejected.
\<close>

theorem report_anchor_least_violation:
  assumes "checkGroup lc sc ord opts grp = Inr (Some r)"
  shows "\<exists>i a b. 1 \<le> i \<and> i < length grp
           \<and> getPropertyName (grp ! (i - 1)) = Some a \<and> getPropertyName (grp ! i) = Some b
           \<and> \<not> isValidOrders lc (orderKey ord (\<not> caseSensitive opts) (natural opts)) a b
           \<and> (\<forall>j a' b'. 1 \<le> j \<and> j < i
                 \<and> getPropertyName (grp ! (j - 1)) = Some a' \<and> getPropertyName (grp ! j) = Some b'
                 \<longrightarrow> isValidOrders lc (orderKey ord (\<not> caseSensitive opts) (natural opts)) a' b')
           \<and> firstViolationIdx (map getPropertyName grp)
                (isValidOrders lc (orderKey ord (\<not> caseSensitive opts) (natural opts))) = i
           \<and> report_node r = grp ! i"
proof -
  let ?iv = "isValidOrders lc (orderKey ord (\<not> caseSensitive opts) (natural opts))"
  let ?names = "map getPropertyName grp"
  let ?k = "firstViolationIdx ?names ?iv"
  from assms have ns: "\<not> areSorted ?names ?iv" and node: "report_node r = grp ! ?k"
    by (auto simp: checkGroup_cases split: if_splits)
  note fv = firstViolationIdx_least [OF ns]
  from fv(2) have klt: "?k < length grp" by simp
  have ooo: "outOfOrder ?names ?iv j \<longleftrightarrow>
      (\<exists>a b. getPropertyName (grp ! (j - 1)) = Some a \<and> getPropertyName (grp ! j) = Some b \<and> \<not> ?iv a b)"
    if "1 \<le> j" "j < length grp" for j
    using that by (simp add: outOfOrder_iff)
  from fv(3) ooo [OF fv(1) klt] obtain a b where
    ab: "getPropertyName (grp ! (?k - 1)) = Some a" "getPropertyName (grp ! ?k) = Some b" "\<not> ?iv a b"
    by auto
  have least: "?iv a' b'"
    if "1 \<le> j" "j < ?k" "getPropertyName (grp ! (j - 1)) = Some a'" "getPropertyName (grp ! j) = Some b'"
    for j a' b'
  proof -
    have "j < length grp" using that(2) klt by simp
    from fv(4) [OF that(1,2)] ooo [OF that(1) this] that(3,4) show ?thesis by auto
  qed
  show ?thesis
    using fv(1) klt ab least node by blast
qed

theorem report_anchor_least_violation_witness:
  "checkGroup codeUnitCollator plainSource Asc defaults
     [plainProp ''b'' 1, plainProp ''c'' 2, plainProp ''a'' 3]
   = Inr (Some \<lparr>report_node = plainProp ''a'' 3,
                 report_loc = \<lparr>start_line = 3, end_line = 3\<rparr>, messageId = ''sort'',
                 report_fix = [\<lparr>fix_range = (10, 15), fix_text = ''a''\<rparr>,
                               \<lparr>fix_range = (20, 25), fix_text = ''b''\<rparr>,
                               \<lparr>fix_range = (30, 35), fix_text = ''c''\<rparr>]\<rparr>)
   \<and> (\<exists>i a b. 1 \<le> i \<and> i < length [plainProp ''b'' 1, plainProp ''c'' 2, plainProp ''a'' 3]
         \<and> getPropertyName ([plainProp ''b'' 1, plainProp ''c'' 2, plainProp ''a'' 3] ! (i - 1)) = Some a
         \<and> getPropertyName ([plainProp ''b'' 1, plainProp ''c'' 2, plainProp ''a'' 3] ! i) = Some b
         \<and> \<not> isValidOrders codeUnitCollator
               (orderKey Asc (\<not> caseSensitive defaults) (natural defaults)) a b
         \<and> plainProp ''a'' 3 = [plainProp ''b'' 1, plainProp ''c'' 2, plainProp ''a'' 3] ! i)"
proof -
  have h: "checkGroup codeUnitCollator plainSource Asc defaults
     [plainProp ''b'' 1, plainProp ''c'' 2, plainProp ''a'' 3]
   = Inr (Some \<lparr>report_node = plainProp ''a'' 3,
                 report_loc = \<lparr>start_line = 3, end_line = 3\<rparr>, messageId = ''sort'',
                 report_fix = [\<lparr>fix_range = (10, 15), fix_text = ''a''\<rparr>,
                               \<lparr>fix_range = (20, 25), fix_text = ''b''\<rparr>,
                               \<lparr>fix_range = (30, 35), fix_text = ''c''\<rparr>]\<rparr>)"
    by code_simp
  from report_anchor_least_violation [OF h] h show ?thesis
    by (simp only: report.simps) blast
qed


text \<open>The comparison of the code units is a consistent comparator; what antisymmetry gives.\<close>

lemma antisymmetric_codeUnitCollator: "antisymmetric codeUnitCollator"
  by (auto simp: antisymmetric_def codeUnitCollator_def)

lemma transitive_codeUnitCollator: "transitive codeUnitCollator"
  by (auto simp: transitive_def codeUnitCollator_def split: if_splits)

lemma consistent_codeUnitCollator: "consistent codeUnitCollator"
  by (simp add: consistent_def antisymmetric_codeUnitCollator transitive_codeUnitCollator)

lemma antisymmetricD: "antisymmetric cmp \<Longrightarrow> sgn (cmp b a) = - sgn (cmp a b)"
  unfolding antisymmetric_def by blast

lemma antisymmetric_mirror: "antisymmetric cmp \<Longrightarrow> sgn (- cmp a b) = sgn (cmp b a)"
  using antisymmetricD [of cmp b a] by (simp only: sgn_minus)

lemma sgn_three_way:
  "sgn (if (a::string) < b then - 1 else if b < a then 1 else (0::int)) =
     (if a < b then - 1 else if b < a then 1 else 0)"
  by simp


text \<open>
  C9. For all strings and each of the four combinations of case and natural mode, the
  descending predicate on \<open>(a, b)\<close> is the ascending one on \<open>(b, a)\<close>, and the comparator
  built with \<open>desc\<close> gives on \<open>(a, b)\<close> the ordering result (the sign) that the one built with
  \<open>asc\<close> gives on \<open>(b, a)\<close>; without the natural mode the two numbers are the same. In the
  natural mode the comparator is the collation of the host, negated for \<open>desc\<close>, and the
  result rests on that collation being antisymmetric, as the language requires of it.
\<close>

theorem descending_mirrors_ascending:
  assumes "natur \<Longrightarrow> antisymmetric lc"
  shows "isValidOrders lc (orderKey Desc insensitive natur) a b
           = isValidOrders lc (orderKey Asc insensitive natur) b a
         \<and> sgn (makeComparator lc Desc caseSens natur a b)
           = sgn (makeComparator lc Asc caseSens natur b a)
         \<and> (\<not> natur \<longrightarrow> makeComparator lc Desc caseSens natur a b
                           = makeComparator lc Asc caseSens natur b a)"
proof -
  have p: "isValidOrders lc (orderKey Desc insensitive natur) a b
           = isValidOrders lc (orderKey Asc insensitive natur) b a"
    by (cases insensitive; cases natur) simp_all
  have q: "makeComparator lc Desc caseSens natur a b = makeComparator lc Asc caseSens natur b a"
    if "\<not> natur"
    using that by (auto simp: makeComparator_def Let_def)
  have r: "sgn (makeComparator lc Desc caseSens natur a b)
           = sgn (makeComparator lc Asc caseSens natur b a)"
  proof (cases natur)
    case False
    with q show ?thesis by simp
  next
    case True
    from assms [OF True] have "sgn (- lc x y) = sgn (lc y x)" for x y
      by (rule antisymmetric_mirror)
    with True show ?thesis
      by (simp add: makeComparator_def Let_def naturalCompare_def)
  qed
  from p q r show ?thesis by blast
qed

theorem descending_mirrors_ascending_witness:
  "antisymmetric codeUnitCollator
   \<and> isValidOrders codeUnitCollator (orderKey Desc True True) ''Item2'' ''item10''
       = isValidOrders codeUnitCollator (orderKey Asc True True) ''item10'' ''Item2''
   \<and> sgn (makeComparator codeUnitCollator Desc False True ''Item2'' ''item10'')
       = sgn (makeComparator codeUnitCollator Asc False True ''item10'' ''Item2'')"
  using descending_mirrors_ascending [of True codeUnitCollator True "''Item2''" "''item10''" False]
    antisymmetric_codeUnitCollator
  by blast


text \<open>At the first place where two strings differ, the smaller code unit decides.\<close>

lemma first_difference_decides:
  fixes x y :: char
  assumes "x < y"
  shows "p @ x # s < p @ y # t"
  using assms by (induction p) simp_all


text \<open>
  C7, as the code has it. In the ascending, case-sensitive mode without natural order the
  predicate is the order of the code units: at the first place where the two names differ
  the smaller code unit goes first, so that a capital from A to Z goes before every letter
  from a to z, its own small letter or another. \<open>{Bar, foo}\<close> is accepted and \<open>{foo, Bar}\<close>
  rejected; so is \<open>{B, a}\<close> accepted and \<open>{a, B}\<close> rejected.
\<close>

theorem case_sensitive_ascending_is_code_unit_order:
  "(isValidOrders lc (orderKey Asc False False) a b \<longleftrightarrow> a \<le> b)
   \<and> ((of_char x :: nat) < of_char y \<longrightarrow>
         isValidOrders lc (orderKey Asc False False) (p @ x # s) (p @ y # t)
         \<and> \<not> isValidOrders lc (orderKey Asc False False) (p @ y # t) (p @ x # s))
   \<and> isValidOrders lc (orderKey Asc False False) ''Bar'' ''foo''
   \<and> \<not> isValidOrders lc (orderKey Asc False False) ''foo'' ''Bar''
   \<and> isValidOrders lc (orderKey Asc False False) ''B'' ''a''
   \<and> \<not> isValidOrders lc (orderKey Asc False False) ''a'' ''B''"
proof -
  have "p @ x # s < p @ y # t" if "(of_char x :: nat) < of_char y"
    using that by (intro first_difference_decides) (simp add: less_char_def)
  then have "(of_char x :: nat) < of_char y \<longrightarrow>
         isValidOrders lc (orderKey Asc False False) (p @ x # s) (p @ y # t)
         \<and> \<not> isValidOrders lc (orderKey Asc False False) (p @ y # t) (p @ x # s)"
    by (auto simp: not_le intro: less_imp_le)
  moreover have "isValidOrders lc (orderKey Asc False False) ''Bar'' ''foo''"
    "\<not> isValidOrders lc (orderKey Asc False False) ''foo'' ''Bar''"
    "isValidOrders lc (orderKey Asc False False) ''B'' ''a''"
    "\<not> isValidOrders lc (orderKey Asc False False) ''a'' ''B''"
    by simp_all
  ultimately show ?thesis by simp
qed

theorem case_sensitive_ascending_is_code_unit_order_witness:
  "(of_char CHR ''Z'' :: nat) < of_char CHR ''a''
   \<and> isValidOrders codeUnitCollator (orderKey Asc False False) ''keyZebra'' ''keyapple''
   \<and> \<not> isValidOrders codeUnitCollator (orderKey Asc False False) ''keyapple'' ''keyZebra''"
proof -
  have h: "(of_char CHR ''Z'' :: nat) < of_char CHR ''a''" by simp
  from case_sensitive_ascending_is_code_unit_order
         [of codeUnitCollator _ _ "CHR ''Z''" "CHR ''a''" "''key''" "''ebra''" "''pple''"] h
  show ?thesis by simp
qed

text \<open>
  C7 as stated fails: in that mode the predicate is not a locale-aware ordering with
  uppercase precedence. Such an ordering puts \<open>a\<close> before \<open>B\<close>; the predicate rejects that
  pair.
\<close>

theorem case_sensitive_ascending_locale_counterexample:
  "\<not> (isValidOrders codeUnitCollator (orderKey Asc False False) ''a'' ''B''
        \<longleftrightarrow> localeUpperFirst ''a'' ''B'')"
  by code_simp


text \<open>The blank-line test of the rule is the blank line of the specification on the gap.\<close>

lemma blankLineInGap_iff:
  "blankLineInGap seq \<longleftrightarrow>
     (\<exists>i. i + 1 < length seq \<and> int (start_line (seq ! (i + 1))) - int (end_line (seq ! i)) > 1)"
  by (auto simp: blankLineInGap_def list_ex_iff less_diff_conv)

lemma hasBlankLineBetween_blankLineInGap:
  "hasBlankLineBetween sc a b
     = blankLineInGap (node_loc a # getTokensBetween sc a b @ [node_loc b])"
proof (cases "getTokensBetween sc a b = []")
  case True
  then show ?thesis
    by (simp add: hasBlankLineBetween_def blankLineInGap_def)
next
  case False
  let ?ts = "getTokensBetween sc a b"
  let ?n = "length ?ts"
  let ?seq = "node_loc a # ?ts @ [node_loc b]"
  let ?P = "\<lambda>i. int (start_line (?seq ! (i + 1))) - int (end_line (?seq ! i)) > 1"
  from False have n: "0 < ?n" by simp
  have P0: "?P 0 \<longleftrightarrow> int (start_line (?ts ! 0)) - int (end_line (node_loc a)) > 1"
    using n by (simp add: nth_append)
  have Pmid: "?P (j + 1) \<longleftrightarrow> int (start_line (?ts ! (j + 1))) - int (end_line (?ts ! j)) > 1"
    if "j < ?n - 1" for j
  proof -
    from that have "Suc j < ?n" "j < ?n" by simp_all
    then show ?thesis by (simp add: nth_append)
  qed
  have Plast: "?P ?n \<longleftrightarrow> int (start_line (node_loc b)) - int (end_line (?ts ! (?n - 1))) > 1"
    using n by (simp add: nth_append nth_Cons')
  have "hasBlankLineBetween sc a b \<longleftrightarrow> ?P 0 \<or> (\<exists>j < ?n - 1. ?P (j + 1)) \<or> ?P ?n"
    unfolding P0 Plast using False Pmid
    by (auto simp: hasBlankLineBetween_def Let_def list_ex_iff)
  also have "\<dots> \<longleftrightarrow> (\<exists>i. i + 1 < length ?seq \<and> ?P i)"
  proof
    assume "?P 0 \<or> (\<exists>j < ?n - 1. ?P (j + 1)) \<or> ?P ?n"
    then consider "?P 0" | j where "j < ?n - 1" "?P (j + 1)" | "?P ?n" by blast
    then show "\<exists>i. i + 1 < length ?seq \<and> ?P i"
    proof cases
      case 1
      then show ?thesis by (intro exI [of _ 0]) simp
    next
      case 2
      then show ?thesis by (intro exI [of _ "j + 1"]) simp
    next
      case 3
      then show ?thesis by (intro exI [of _ ?n]) simp
    qed
  next
    assume "\<exists>i. i + 1 < length ?seq \<and> ?P i"
    then obtain i where i: "i + 1 < length ?seq" "?P i" by blast
    from i(1) have "i = 0 \<or> (\<exists>j < ?n - 1. i = j + 1) \<or> i = ?n"
      by (cases i) auto
    with i(2) show "?P 0 \<or> (\<exists>j < ?n - 1. ?P (j + 1)) \<or> ?P ?n" by blast
  qed
  finally show ?thesis by (simp only: blankLineInGap_iff)
qed


text \<open>
  C6. With \<open>allowLineSeparatedGroups\<close> on and a current group that is not empty, a candidate
  that is kept (not a spread, not an ignored computed key) closes the current group before
  it is added exactly when the gap has a blank line: over the previous kept entry, the
  tokens and comments between, and the candidate, the start of one lies more than one line
  after the end of the one before. The candidate then begins the new group. Where the lines
  do not go backwards along the gap, as in a source, that is the two line numbers differing
  by more than 1.
\<close>

theorem blank_line_closes_group:
  assumes "allowLineSeparatedGroups opts" and "current \<noteq> []"
    and "\<not> (ignoreComputedKeys opts \<and> computed prop)"
  shows "splitStep opts sc (groups, current) (Property prop)
           = (if blankLineInGap (node_loc (last current)
                    # getTokensBetween sc (last current) prop @ [node_loc prop])
              then (groups @ [current], [prop])
              else (groups, current @ [prop]))
         \<and> ((\<forall>i. i + 1 < length (node_loc (last current)
                    # getTokensBetween sc (last current) prop @ [node_loc prop])
                \<longrightarrow> end_line ((node_loc (last current)
                    # getTokensBetween sc (last current) prop @ [node_loc prop]) ! i)
                    \<le> start_line ((node_loc (last current)
                    # getTokensBetween sc (last current) prop @ [node_loc prop]) ! (i + 1)))
              \<longrightarrow> blankLineInGap (node_loc (last current)
                    # getTokensBetween sc (last current) prop @ [node_loc prop])
                  = (\<exists>i. i + 1 < length (node_loc (last current)
                    # getTokensBetween sc (last current) prop @ [node_loc prop])
                      \<and> \<bar>int (start_line ((node_loc (last current)
                    # getTokensBetween sc (last current) prop @ [node_loc prop]) ! (i + 1)))
                         - int (end_line ((node_loc (last current)
                    # getTokensBetween sc (last current) prop @ [node_loc prop]) ! i))\<bar> > 1))"
proof -
  let ?seq = "node_loc (last current) # getTokensBetween sc (last current) prop @ [node_loc prop]"
  from assms(2) have lst: "current ! (length current - Suc 0) = last current"
    by (simp add: last_conv_nth)
  have step: "splitStep opts sc (groups, current) (Property prop)
           = (if blankLineInGap ?seq then (groups @ [current], [prop])
              else (groups, current @ [prop]))"
    using assms by (auto simp: lst hasBlankLineBetween_blankLineInGap)
  have "blankLineInGap ?seq
        = (\<exists>i. i + 1 < length ?seq
              \<and> \<bar>int (start_line (?seq ! (i + 1))) - int (end_line (?seq ! i))\<bar> > 1)"
    if ordered: "\<forall>i. i + 1 < length ?seq \<longrightarrow> end_line (?seq ! i) \<le> start_line (?seq ! (i + 1))"
  proof -
    have "\<bar>int (start_line (?seq ! (i + 1))) - int (end_line (?seq ! i))\<bar>
            = int (start_line (?seq ! (i + 1))) - int (end_line (?seq ! i))"
      if "i + 1 < length ?seq" for i
      using ordered that by simp
    then show ?thesis
      unfolding blankLineInGap_iff by (metis (no_types, lifting))
  qed
  with step show ?thesis by blast
qed

theorem blank_line_closes_group_witness:
  "allowLineSeparatedGroups (defaults\<lparr>allowLineSeparatedGroups := True\<rparr>)
   \<and> [plainProp ''beta'' 1, plainProp ''alpha'' 2] \<noteq> []
   \<and> \<not> (ignoreComputedKeys (defaults\<lparr>allowLineSeparatedGroups := True\<rparr>)
          \<and> computed (plainProp ''y'' 5))
   \<and> splitStep (defaults\<lparr>allowLineSeparatedGroups := True\<rparr>) commaSource
        ([], [plainProp ''beta'' 1, plainProp ''alpha'' 2]) (Property (plainProp ''y'' 5))
      = ([[plainProp ''beta'' 1, plainProp ''alpha'' 2]], [plainProp ''y'' 5])
   \<and> splitStep (defaults\<lparr>allowLineSeparatedGroups := True\<rparr>) commaSource
        ([], [plainProp ''beta'' 1]) (Property (plainProp ''alpha'' 2))
      = ([], [plainProp ''beta'' 1, plainProp ''alpha'' 2])"
proof -
  let ?opts = "defaults\<lparr>allowLineSeparatedGroups := True\<rparr>"
  have h1: "allowLineSeparatedGroups ?opts" by simp
  have h2: "[plainProp ''beta'' 1, plainProp ''alpha'' 2] \<noteq> []" by simp
  have h2': "[plainProp ''beta'' 1] \<noteq> []" by simp
  have h3: "\<not> (ignoreComputedKeys ?opts \<and> computed (plainProp ''y'' 5))"
    by (simp add: plainProp_def)
  have h3': "\<not> (ignoreComputedKeys ?opts \<and> computed (plainProp ''alpha'' 2))"
    by (simp add: plainProp_def)
  have gap: "blankLineInGap (node_loc (last [plainProp ''beta'' 1, plainProp ''alpha'' 2])
      # getTokensBetween commaSource (last [plainProp ''beta'' 1, plainProp ''alpha'' 2])
          (plainProp ''y'' 5) @ [node_loc (plainProp ''y'' 5)])"
    by code_simp
  have nogap: "\<not> blankLineInGap (node_loc (last [plainProp ''beta'' 1])
      # getTokensBetween commaSource (last [plainProp ''beta'' 1])
          (plainProp ''alpha'' 2) @ [node_loc (plainProp ''alpha'' 2)])"
    by code_simp
  from blank_line_closes_group [OF h1 h2 h3, of commaSource "[]"]
    blank_line_closes_group [OF h1 h2' h3', of commaSource "[]"] gap nogap h1 h2 h3
  show ?thesis by (simp only: if_True if_False append_Nil append_Cons) blast
qed


text \<open>
  C1, on the code. With \<open>ignoreComputedKeys\<close> on, \<open>splitIntoGroups\<close> tests \<open>prop.computed\<close>
  alone, so a computed key with a literal value closes the current group and is left out of
  every group, like a dynamic one, although \<open>getPropertyName\<close> gives it its name as it does
  for a static key: \<open>{["foo"]: 1, ["bar"]: 2}\<close> has no group and gets no report, and in
  \<open>{b: 1, ["a"]: 2, c: 3}\<close> the key \<open>["a"]\<close> separates \<open>b\<close> from \<open>c\<close>. With the option off the
  two computed literal keys are one group.
\<close>

theorem computed_literal_key_closes_group:
  "getPropertyName (computedProp (Literal (JSString ''foo'')) 1) = Some ''foo''
   \<and> getPropertyName (computedProp (Literal (JSString ''bar'')) 2) = Some ''bar''
   \<and> splitIntoGroups (defaults\<lparr>ignoreComputedKeys := True\<rparr>) commaSource
        [Property (computedProp (Literal (JSString ''foo'')) 1),
         Property (computedProp (Literal (JSString ''bar'')) 2)] = []
   \<and> ObjectExpression_exit codeUnitCollator commaSource Asc
        (defaults\<lparr>ignoreComputedKeys := True\<rparr>)
        [Property (computedProp (Literal (JSString ''foo'')) 1),
         Property (computedProp (Literal (JSString ''bar'')) 2)] = Inr []
   \<and> splitIntoGroups (defaults\<lparr>ignoreComputedKeys := True\<rparr>) commaSource
        [Property (plainProp ''b'' 1),
         Property (computedProp (Literal (JSString ''a'')) 2),
         Property (plainProp ''c'' 3)] = [[plainProp ''b'' 1], [plainProp ''c'' 3]]
   \<and> splitIntoGroups defaults commaSource
        [Property (computedProp (Literal (JSString ''foo'')) 1),
         Property (computedProp (Literal (JSString ''bar'')) 2)]
      = [[computedProp (Literal (JSString ''foo'')) 1,
          computedProp (Literal (JSString ''bar'')) 2]]"
  by code_simp


section \<open>The sort\<close>

lemma antisymmetric_iff:
  "antisymmetric cmp \<longleftrightarrow>
     (\<forall>a b. (cmp a b < 0 \<longleftrightarrow> 0 < cmp b a) \<and> (cmp a b = 0 \<longleftrightarrow> cmp b a = 0))"
proof -
  have "sgn (y::int) = - sgn x \<longleftrightarrow> (x < 0 \<longleftrightarrow> 0 < y) \<and> (x = 0 \<longleftrightarrow> y = 0)" for x y
    by (auto simp: sgn_if split: if_splits)
  then show ?thesis by (simp only: antisymmetric_def)
qed

lemma antisymmetric_total:
  "antisymmetric cmp \<Longrightarrow> 0 < cmp a b \<Longrightarrow> cmp b a \<le> 0"
  unfolding antisymmetric_iff by (simp add: less_imp_le)

lemma antisymmetric_refl:
  assumes "antisymmetric cmp"
  shows "cmp a a = 0"
proof -
  from assms have "cmp a a < 0 \<longleftrightarrow> 0 < cmp a a"
    unfolding antisymmetric_iff by blast
  then show ?thesis by arith
qed

lemma transitiveD:
  "transitive cmp \<Longrightarrow> cmp a b \<le> 0 \<Longrightarrow> cmp b c \<le> 0 \<Longrightarrow> cmp a c \<le> 0"
  unfolding transitive_def by blast

text \<open>Insertion gives a permutation; it is ordered, stable, and leaves an ordered list alone.\<close>

lemma mset_insertBy: "mset (insertBy cmp x ys) = add_mset x (mset ys)"
  by (induction ys) simp_all

lemma mset_array_sort: "mset (array_sort cmp xs) = mset xs"
  by (induction xs) (simp_all add: mset_insertBy)

lemma length_array_sort: "length (array_sort cmp xs) = length xs"
  using mset_array_sort [of cmp xs] by (metis size_mset)

lemma set_array_sort: "set (array_sort cmp xs) = set xs"
  using mset_array_sort [of cmp xs] by (metis set_mset_mset)

lemma hd_insertBy: "hd (insertBy cmp x ys) = x \<or> (ys \<noteq> [] \<and> 0 < cmp x (hd ys) \<and> hd (insertBy cmp x ys) = hd ys)"
  by (cases ys) auto

lemma insertBy_not_Nil: "insertBy cmp x ys \<noteq> []"
  by (cases ys) auto

lemma successively_insertBy:
  assumes "antisymmetric cmp" and "successively (\<lambda>a b. cmp a b \<le> 0) ys"
  shows "successively (\<lambda>a b. cmp a b \<le> 0) (insertBy cmp x ys)"
  using assms(2)
proof (induction ys)
  case Nil
  then show ?case by simp
next
  case (Cons y ys)
  show ?case
  proof (cases "cmp x y \<le> 0")
    case True
    with Cons.prems show ?thesis by simp
  next
    case False
    then have yx: "cmp y x \<le> 0" using antisymmetric_total [OF assms(1), of x y] by simp
    from Cons.prems have s: "successively (\<lambda>a b. cmp a b \<le> 0) ys"
      by (auto simp: successively_Cons)
    have hd: "cmp y (hd (insertBy cmp x ys)) \<le> 0"
      using hd_insertBy [of cmp x ys] yx Cons.prems by (auto simp: successively_Cons)
    from False Cons.IH [OF s] hd show ?thesis
      by (simp add: successively_Cons insertBy_not_Nil)
  qed
qed

lemma successively_array_sort:
  "antisymmetric cmp \<Longrightarrow> successively (\<lambda>a b. cmp a b \<le> 0) (array_sort cmp xs)"
  by (induction xs) (simp_all add: successively_insertBy)

lemma sorted_wrt_array_sort:
  assumes "consistent cmp"
  shows "sorted_wrt (\<lambda>a b. cmp a b \<le> 0) (array_sort cmp xs)"
proof -
  from assms have "transp (\<lambda>a b. cmp a b \<le> 0)"
    by (auto simp: consistent_def intro!: transpI dest: transitiveD)
  moreover from assms have "successively (\<lambda>a b. cmp a b \<le> 0) (array_sort cmp xs)"
    by (simp add: consistent_def successively_array_sort)
  ultimately show ?thesis by (simp add: successively_conv_sorted_wrt)
qed

lemma array_sort_sorted:
  "successively (\<lambda>a b. cmp a b \<le> 0) xs \<Longrightarrow> array_sort cmp xs = xs"
proof (induction xs)
  case Nil
  then show ?case by simp
next
  case (Cons x xs)
  then have "array_sort cmp xs = xs" by (auto simp: successively_Cons)
  with Cons.prems show ?case by (cases xs) (simp_all add: successively_Cons)
qed

lemma filter_insertBy:
  assumes "P x \<Longrightarrow> \<forall>y \<in> set ys. P y \<longrightarrow> cmp x y \<le> 0"
  shows "filter P (insertBy cmp x ys) = (if P x then x # filter P ys else filter P ys)"
  using assms by (induction ys) auto

lemma filter_array_sort:
  assumes "\<And>x y. P x \<Longrightarrow> P y \<Longrightarrow> cmp x y \<le> 0"
  shows "filter P (array_sort cmp xs) = filter P xs"
proof (induction xs)
  case Nil
  then show ?case by simp
next
  case (Cons x xs)
  have "filter P (insertBy cmp x (array_sort cmp xs))
          = (if P x then x # filter P (array_sort cmp xs) else filter P (array_sort cmp xs))"
    by (rule filter_insertBy) (simp add: assms)
  with Cons.IH show ?case by simp
qed

lemma array_sort_stable:
  assumes "consistent cmp"
  shows "filter (\<lambda>e. cmp e w = 0) (array_sort cmp xs) = filter (\<lambda>e. cmp e w = 0) xs"
proof (rule filter_array_sort)
  fix x y
  assume "cmp x w = 0" and "cmp y w = 0"
  from assms have a: "antisymmetric cmp" and t: "transitive cmp"
    by (simp_all add: consistent_def)
  from a \<open>cmp y w = 0\<close> have "cmp w y = 0" unfolding antisymmetric_iff by blast
  with \<open>cmp x w = 0\<close> show "cmp x y \<le> 0"
    using transitiveD [OF t, of x w y] by simp
qed


section \<open>The comparators\<close>

lemma makeComparator_plain:
  "makeComparator lc ord cs False a b =
     (if ord = Desc then - 1 else 1) *
     (if (if cs then a else toLowerCase a) < (if cs then b else toLowerCase b) then - 1
      else if (if cs then b else toLowerCase b) < (if cs then a else toLowerCase a) then 1
      else 0)"
  by (simp add: makeComparator_def Let_def)

lemma makeComparator_natural:
  "makeComparator lc ord cs True a b =
     (if ord = Desc then - 1 else 1) *
       lc (if cs then a else toLowerCase a) (if cs then b else toLowerCase b)"
  by (simp add: makeComparator_def Let_def naturalCompare_def)

lemma antisymmetric_makeComparator:
  assumes "natur \<Longrightarrow> antisymmetric lc"
  shows "antisymmetric (makeComparator lc ord cs natur)"
proof (cases natur)
  case False
  then show ?thesis
    unfolding antisymmetric_iff by (auto simp: makeComparator_plain)
next
  case True
  from assms [OF True]
  have "\<forall>a b. (lc a b < 0 \<longleftrightarrow> 0 < lc b a) \<and> (lc a b = 0 \<longleftrightarrow> lc b a = 0)"
    unfolding antisymmetric_iff .
  with True show ?thesis
    unfolding antisymmetric_iff by (auto simp: makeComparator_natural)
qed

lemma transitive_makeComparator:
  assumes "natur \<Longrightarrow> consistent lc"
  shows "transitive (makeComparator lc ord cs natur)"
proof (cases natur)
  case False
  then show ?thesis
    unfolding transitive_def by (auto simp: makeComparator_plain split: if_splits)
next
  case True
  from assms [OF True] have "antisymmetric lc" and "transitive lc"
    by (simp_all add: consistent_def)
  then have a: "\<forall>a b. (lc a b < 0 \<longleftrightarrow> 0 < lc b a) \<and> (lc a b = 0 \<longleftrightarrow> lc b a = 0)"
    and t: "\<forall>a b c. lc a b \<le> 0 \<and> lc b c \<le> 0 \<longrightarrow> lc a c \<le> 0"
    unfolding antisymmetric_iff transitive_def .
  have ge: "0 \<le> lc x z" if "0 \<le> lc x y" "0 \<le> lc y z" for x y z
  proof -
    from that a have "lc y x \<le> 0" "lc z y \<le> 0" by (metis not_le)+
    with t have "lc z x \<le> 0" by blast
    with a show ?thesis by (metis not_le)
  qed
  define n where "n = (\<lambda>s. if cs then s else toLowerCase s)"
  have mk: "makeComparator lc d cs natur u v = (if d = Desc then - 1 else 1) * lc (n u) (n v)"
    for d u v
    using True by (simp add: makeComparator_natural n_def)
  show ?thesis
    unfolding transitive_def
  proof (intro allI impI, elim conjE)
    fix x y z
    assume xy: "makeComparator lc ord cs natur x y \<le> 0"
      and yz: "makeComparator lc ord cs natur y z \<le> 0"
    show "makeComparator lc ord cs natur x z \<le> 0"
    proof (cases ord)
      case Asc
      from xy yz have "lc (n x) (n y) \<le> 0" "lc (n y) (n z) \<le> 0" by (simp_all add: mk Asc)
      with t have "lc (n x) (n z) \<le> 0" by blast
      then show ?thesis by (simp add: mk Asc)
    next
      case Desc
      from xy yz have "0 \<le> lc (n x) (n y)" "0 \<le> lc (n y) (n z)" by (simp_all add: mk Desc)
      then have "0 \<le> lc (n x) (n z)" by (rule ge)
      then show ?thesis by (simp add: mk Desc)
    qed
  qed
qed

lemma consistent_makeComparator:
  "(natur \<Longrightarrow> consistent lc) \<Longrightarrow> consistent (makeComparator lc ord cs natur)"
  using antisymmetric_makeComparator [of natur lc ord cs] transitive_makeComparator [of natur lc ord cs]
  by (auto simp: consistent_def)

lemma antisymmetric_sortCompare:
  "antisymmetric cmp \<Longrightarrow> antisymmetric (sortCompare cmp)"
  unfolding antisymmetric_iff by (auto simp: sortCompare_def split: option.splits)

lemma transitive_sortCompare:
  assumes "transitive cmp"
  shows "transitive (sortCompare cmp)"
  unfolding transitive_def
proof (intro allI impI, elim conjE)
  fix a b c
  assume ab: "sortCompare cmp a b \<le> 0" and bc: "sortCompare cmp b c \<le> 0"
  show "sortCompare cmp a c \<le> 0"
  proof (cases "getPropertyName a")
    case None
    with ab have "getPropertyName b = None"
      by (cases "getPropertyName b") (simp_all add: sortCompare_def)
    with bc have "getPropertyName c = None"
      by (cases "getPropertyName c") (simp_all add: sortCompare_def)
    with None show ?thesis by (simp add: sortCompare_def)
  next
    case a: (Some na)
    show ?thesis
    proof (cases "getPropertyName c")
      case None
      with a show ?thesis by (simp add: sortCompare_def)
    next
      case c: (Some nc)
      with bc obtain nb where b: "getPropertyName b = Some nb"
        by (cases "getPropertyName b") (simp_all add: sortCompare_def)
      from ab bc a b c have "cmp na nb \<le> 0" "cmp nb nc \<le> 0"
        by (simp_all add: sortCompare_def)
      then have "cmp na nc \<le> 0" by (rule transitiveD [OF assms])
      with a c show ?thesis by (simp add: sortCompare_def)
    qed
  qed
qed

lemma consistent_sortCompare: "consistent cmp \<Longrightarrow> consistent (sortCompare cmp)"
  by (simp add: consistent_def antisymmetric_sortCompare transitive_sortCompare)

lemma comparator_le_valid:
  assumes "natur \<Longrightarrow> antisymmetric lc"
    and "makeComparator lc ord cs natur a b \<le> 0"
  shows "isValidOrders lc (orderKey ord (\<not> cs) natur) a b"
proof (cases natur)
  case False
  with assms(2) show ?thesis
    by (cases ord; cases cs) (auto simp: makeComparator_plain split: if_splits)
next
  case True
  from assms(1) [OF True]
  have a: "\<forall>a b. (lc a b < 0 \<longleftrightarrow> 0 < lc b a) \<and> (lc a b = 0 \<longleftrightarrow> lc b a = 0)"
    unfolding antisymmetric_iff .
  have ge: "lc y x \<le> 0" if "0 \<le> lc x y" for x y
    using that a by (metis not_le)
  from True assms(2) show ?thesis
    by (cases ord; cases cs) (auto simp: makeComparator_natural naturalCompare_def intro: ge)
qed

end
